theory Spec2Isabelle
  imports Main "HOL-Library.Word" "HOL-Library.Sublist"
begin

section \<open>The request queue of \<open>aedis::connection\<close>\<close>

text \<open>
  A shallow embedding of the request-queue half of \<open>aedis::connection\<close>
  (\<open>connection.hpp\<close>): the nested struct \<open>req_info\<close>, and the member functions
  \<open>close\<close>, \<open>on_write\<close>, \<open>add_request\<close>, \<open>make_req_info\<close>, \<open>release_req_info\<close>
  and \<open>coalesce_requests\<close>.

  Conventions.
  \<^item> \<open>std::size_t\<close> is a 64-bit word: \<open>+=\<close> and \<open>--\<close> wrap around.
  \<^item> A \<open>std::shared_ptr<req_info>\<close> is an address into a store of \<open>req_info\<close>
    objects, so that the queue, the pool and the submitters may hold the same object.
    A non-null shared pointer can always be dereferenced, hence the store is a total
    function; \<open>next_'\<close> is the allocation limit used by \<open>std::make_shared\<close>.
  \<^item> A raw pointer \<open>resp3::request const*\<close> is a \<open>request option\<close>, \<open>None\<close> being
    \<open>nullptr\<close>; \<open>socket_'\<close>, a shared pointer that starts out null, is a
    \<open>stream option\<close>.
  \<^item> Undefined behaviour (dereferencing a null pointer, an iterator outside the
    container), a failing \<open>BOOST_ASSERT\<close> and the exception of \<open>std::deque::at\<close> are
    values of the type \<open>error\<close>; a member function that can run into one returns
    \<open>error + connection\<close>. Assertions are taken as compiled in.
  \<^item> A name cannot end in an underscore here, so the data member \<open>reqs_\<close> of the
    source is the field \<open>reqs_'\<close>, and likewise for the other data members.
\<close>

subsection \<open>Values\<close>

type_synonym size_t = "64 word"

text \<open>A \<open>std::chrono::steady_clock::time_point\<close>, in ticks of the clock.\<close>

type_synonym time_point = int

type_synonym milliseconds = int

definition time_point_max :: time_point where
  "time_point_max = 2 ^ 63 - 1"

definition time_point_min :: time_point where
  "time_point_min = - (2 ^ 63)"

datatype error = NullDereference | AssertionFailure | InvalidIterator | OutOfRange

text \<open>
  Modelled from the spec: \<open>resp3::request\<close> (\<open>aedis/resp3/request.hpp\<close> is not among
  the sources). ``Request: an opaque, caller-owned sequence of already-serialized RESP3
  command frames, plus a count of the number of top-level responses it expects.''
  The connection reads it through the two accessors \<open>payload()\<close> and \<open>commands()\<close> only.
\<close>

record request =
  payload :: string
  commands :: size_t

subsection \<open>The I/O objects of Boost.Asio\<close>

text \<open>
  A \<open>boost::asio::steady_timer\<close> is its expiry time and the number of asynchronous
  waits outstanding on it. Completing a wait is what wakes the coroutine suspended on
  the timer. As documented by Asio: \<open>cancel\<close> completes every outstanding wait (with
  \<open>operation_aborted\<close>), \<open>cancel_one\<close> completes one of them if there is one, and
  \<open>expires_at\<close> sets the expiry time and cancels every outstanding wait.
\<close>

record steady_timer =
  expiry :: time_point
  waiters :: nat

definition new_timer :: steady_timer where
  "new_timer = \<lparr>expiry = 0, waiters = 0\<rparr>"

definition cancel :: "steady_timer \<Rightarrow> steady_timer" where
  "cancel t = t\<lparr>waiters := 0\<rparr>"

definition cancel_one :: "steady_timer \<Rightarrow> steady_timer" where
  "cancel_one t = t\<lparr>waiters := waiters t - 1\<rparr>"

definition expires_at :: "time_point \<Rightarrow> steady_timer \<Rightarrow> steady_timer" where
  "expires_at tp t = t\<lparr>expiry := tp, waiters := 0\<rparr>"

text \<open>
  An \<open>experimental::channel\<close>, as far as \<open>close\<close> is concerned: the number of
  outstanding send and receive operations, all of which \<open>cancel\<close> completes.
\<close>

record channel =
  pending :: nat

definition channel_cancel :: "channel \<Rightarrow> channel" where
  "channel_cancel ch = ch\<lparr>pending := 0\<rparr>"

text \<open>The stream behind \<open>socket_'\<close>: \<open>close\<close> only closes it.\<close>

record stream =
  is_open :: bool

definition stream_close :: "stream \<Rightarrow> stream" where
  "stream_close s = s\<lparr>is_open := False\<rparr>"

subsection \<open>\<open>connection::config\<close> and \<open>connection::req_info\<close>\<close>

text \<open>
  The field \<open>coalesce_requests\<close> of \<open>config\<close> is written \<open>coalesce_requests_flag\<close>,
  the name \<open>coalesce_requests\<close> being kept for the member function of the connection.
\<close>

record config =
  resolve_timeout :: milliseconds
  connect_timeout :: milliseconds
  read_timeout :: milliseconds
  ping_interval :: milliseconds
  max_read_size :: size_t
  coalesce_requests_flag :: bool

definition default_config :: config where
  "default_config =
     \<lparr>resolve_timeout = 5000, connect_timeout = 5000, read_timeout = 5000,
      ping_interval = 5000, max_read_size = - 1, coalesce_requests_flag = True\<rparr>"

record req_info =
  timer :: steady_timer
  req :: "request option"
  n_cmds :: size_t
  stop :: bool

text \<open>\<open>std::make_shared<req_info>(steady_timer{ex})\<close>: the default member initialisers.\<close>

definition new_req_info :: req_info where
  "new_req_info = \<lparr>timer = new_timer, req = None, n_cmds = 0, stop = False\<rparr>"

definition expects_response :: "req_info \<Rightarrow> bool" where
  "expects_response e = (n_cmds e \<noteq> 0)"

text \<open>\<open>req_info::pop\<close>: the \<open>BOOST_ASSERT\<close> is the error branch.\<close>

definition pop :: "req_info \<Rightarrow> error + req_info" where
  "pop e = (if n_cmds e \<noteq> 0 then Inr (e\<lparr>n_cmds := n_cmds e - 1\<rparr>)
            else Inl AssertionFailure)"

subsection \<open>The connection\<close>

type_synonym addr = nat

text \<open>
  The data members of \<open>connection\<close>, without the resolver \<open>resv_\<close>, the resolved
  \<open>endpoints_\<close> and the scratch request \<open>req_\<close>, which none of the modelled member
  functions touches. \<open>store_'\<close> and \<open>next_'\<close> are the memory the shared pointers of
  \<open>reqs_'\<close> and \<open>pool_'\<close> point into.
\<close>

record connection =
  socket_' :: "stream option"
  ping_timer_' :: steady_timer
  check_idle_timer_' :: steady_timer
  writer_timer_' :: steady_timer
  read_channel_' :: channel
  push_channel_' :: channel
  cfg_' :: config
  read_buffer_' :: string
  payload_' :: string
  cmds_' :: size_t
  reqs_' :: "addr list"
  pool_' :: "addr list"
  last_data_' :: time_point
  store_' :: "addr \<Rightarrow> req_info"
  next_' :: addr

text \<open>The constructor: \<open>socket_'\<close> is a null pointer until a connection attempt installs one.\<close>

definition new_connection :: "config \<Rightarrow> connection" where
  "new_connection cfg =
     \<lparr>socket_' = None,
      ping_timer_' = new_timer,
      check_idle_timer_' = new_timer,
      writer_timer_' = expires_at time_point_max new_timer,
      read_channel_' = \<lparr>pending = 0\<rparr>,
      push_channel_' = \<lparr>pending = 0\<rparr>,
      cfg_' = cfg,
      read_buffer_' = [],
      payload_' = [],
      cmds_' = 0,
      reqs_' = [],
      pool_' = [],
      last_data_' = time_point_min,
      store_' = (\<lambda>_. new_req_info),
      next_' = 0\<rparr>"

text \<open>\<open>p->field = v\<close> through a shared pointer \<open>p\<close>.\<close>

definition modify :: "addr \<Rightarrow> (req_info \<Rightarrow> req_info) \<Rightarrow> connection \<Rightarrow> connection" where
  "modify a f c = c\<lparr>store_' := (store_' c)(a := f (store_' c a))\<rparr>"

subsection \<open>\<open>close\<close>\<close>

text \<open>
  The range-based \<open>for\<close> over \<open>reqs_'\<close>. The clock reading of
  \<open>steady_clock::now()\<close> is the argument \<open>now\<close>.
\<close>

fun stop_all :: "addr list \<Rightarrow> connection \<Rightarrow> connection" where
  "stop_all [] c = c"
| "stop_all (e # es) c =
     stop_all es
       (modify e (\<lambda>i. i\<lparr>timer := cancel_one (timer i)\<rparr>)
         (modify e (\<lambda>i. i\<lparr>stop := True\<rparr>) c))"

definition close :: "time_point \<Rightarrow> connection \<Rightarrow> error + connection" where
  "close now c =
     (case socket_' c of
        None \<Rightarrow> Inl NullDereference
      | Some s \<Rightarrow>
          (let c1 = c\<lparr>socket_' := Some (stream_close s)\<rparr>;
               c2 = c1\<lparr>cmds_' := 0\<rparr>;
               c3 = c2\<lparr>payload_' := []\<rparr>;
               c4 = c3\<lparr>read_channel_' := channel_cancel (read_channel_' c3)\<rparr>;
               c5 = c4\<lparr>push_channel_' := channel_cancel (push_channel_' c4)\<rparr>;
               c6 = c5\<lparr>check_idle_timer_' := expires_at now (check_idle_timer_' c5)\<rparr>;
               c7 = c6\<lparr>writer_timer_' := cancel (writer_timer_' c6)\<rparr>;
               c8 = c7\<lparr>ping_timer_' := cancel (ping_timer_' c7)\<rparr>;
               c9 = stop_all (reqs_' c8) c8
           in Inr (c9\<lparr>reqs_' := []\<rparr>)))"

subsection \<open>\<open>on_write\<close>\<close>

text \<open>
  \<open>std::stable_partition\<close> on a range: the elements that satisfy the predicate come
  first, both groups keep their order, and the result is the position of the first
  element of the second group.
\<close>

definition stable_partition :: "('a \<Rightarrow> bool) \<Rightarrow> 'a list \<Rightarrow> 'a list \<times> nat" where
  "stable_partition P xs = (filter P xs @ filter (\<lambda>x. \<not> P x) xs, length (filter P xs))"

text \<open>The predicate of the partition, \<open>ptr->req->commands() != 0\<close>, where \<open>req\<close> is not null.\<close>

definition has_commands :: "connection \<Rightarrow> addr \<Rightarrow> bool" where
  "has_commands c a = (case req (store_' c a) of None \<Rightarrow> False | Some r \<Rightarrow> commands r \<noteq> 0)"

text \<open>\<open>std::for_each\<close> with \<open>ptr->timer.cancel()\<close>.\<close>

fun cancel_all :: "addr list \<Rightarrow> connection \<Rightarrow> connection" where
  "cancel_all [] c = c"
| "cancel_all (p # ps) c = cancel_all ps (modify p (\<lambda>i. i\<lparr>timer := cancel (timer i)\<rparr>) c)"

text \<open>\<open>reqs_'.erase(first, last)\<close> with positions for iterators.\<close>

definition erase :: "nat \<Rightarrow> nat \<Rightarrow> 'a list \<Rightarrow> 'a list" where
  "erase first lst xs = take first xs @ drop lst xs"

text \<open>
  The iterator \<open>end\<close> is its distance from \<open>std::begin(reqs_')\<close>. An iterator past the
  end of the queue, and a null \<open>req\<close> in the range of the partition, are undefined
  behaviour.
\<close>

definition on_write :: "nat \<Rightarrow> connection \<Rightarrow> error + connection" where
  "on_write end c =
     (if length (reqs_' c) < end then Inl InvalidIterator
      else if \<exists>a \<in> set (take end (reqs_' c)). req (store_' c a) = None then Inl NullDereference
      else
        (let c1 = c\<lparr>payload_' := []\<rparr>;
             (range, point) = stable_partition (has_commands c1) (take end (reqs_' c1));
             c2 = c1\<lparr>reqs_' := range @ drop end (reqs_' c1)\<rparr>;
             c3 = cancel_all (take (end - point) (drop point (reqs_' c2))) c2
         in Inr (c3\<lparr>reqs_' := erase point end (reqs_' c3)\<rparr>)))"

subsection \<open>\<open>make_req_info\<close>, \<open>release_req_info\<close>, \<open>add_request\<close>\<close>

definition make_req_info :: "connection \<Rightarrow> addr \<times> connection" where
  "make_req_info c =
     (if pool_' c = []
      then (next_' c, c\<lparr>store_' := (store_' c)(next_' c := new_req_info), next_' := Suc (next_' c)\<rparr>)
      else (last (pool_' c), c\<lparr>pool_' := butlast (pool_' c)\<rparr>))"

definition release_req_info :: "addr \<Rightarrow> connection \<Rightarrow> connection" where
  "release_req_info info c = c\<lparr>pool_' := pool_' c @ [info]\<rparr>"

text \<open>\<open>reqs_'.back()\<close>, called on a queue that \<open>push_back\<close> has just made non-empty.\<close>

definition reqs_back :: "connection \<Rightarrow> addr" where
  "reqs_back c = last (reqs_' c)"

definition add_request :: "request \<Rightarrow> connection \<Rightarrow> connection" where
  "add_request r c =
     (let (p, c0) = make_req_info c;
          c1 = c0\<lparr>reqs_' := reqs_' c0 @ [p]\<rparr>;
          c2 = modify (reqs_back c1) (\<lambda>i. i\<lparr>timer := expires_at time_point_max (timer i)\<rparr>) c1;
          c3 = modify (reqs_back c2) (\<lambda>i. i\<lparr>req := Some r\<rparr>) c2;
          c4 = modify (reqs_back c3) (\<lambda>i. i\<lparr>n_cmds := commands r\<rparr>) c3;
          c5 = modify (reqs_back c4) (\<lambda>i. i\<lparr>stop := False\<rparr>) c4
      in if socket_' c5 \<noteq> None \<and> cmds_' c5 = 0 \<and> payload_' c5 = []
         then c5\<lparr>writer_timer_' := cancel (writer_timer_' c5)\<rparr>
         else c5)"

subsection \<open>\<open>coalesce_requests\<close>\<close>

text \<open>\<open>reqs_'.at(i)\<close> throws \<open>std::out_of_range\<close> outside the queue.\<close>

definition at_reqs :: "connection \<Rightarrow> nat \<Rightarrow> error + addr" where
  "at_reqs c i = (if i < length (reqs_' c) then Inr (reqs_' c ! i) else Inl OutOfRange)"

text \<open>The \<open>for\<close> loop, from the index \<open>i\<close> on.\<close>

function coalesce_loop :: "nat \<Rightarrow> nat \<Rightarrow> connection \<Rightarrow> error + connection" where
  "coalesce_loop i sz c =
     (if i < sz then
        (case at_reqs c i of
           Inl e \<Rightarrow> Inl e
         | Inr p \<Rightarrow>
             (case req (store_' c p) of
                None \<Rightarrow> Inl NullDereference
              | Some r \<Rightarrow>
                  coalesce_loop (i + 1) sz
                    (c\<lparr>payload_' := payload_' c @ payload r, cmds_' := cmds_' c + commands r\<rparr>)))
      else Inr c)"
  by pat_completeness auto
termination
  by (relation "measure (\<lambda>(i, sz, c). sz - i)") auto

declare coalesce_loop.simps [simp del]

definition coalesce_requests :: "connection \<Rightarrow> error + connection" where
  "coalesce_requests c =
     (if payload_' c \<noteq> [] then Inl AssertionFailure
      else if reqs_' c = [] then Inl AssertionFailure
      else coalesce_loop 0 (if coalesce_requests_flag (cfg_' c) then length (reqs_' c) else 1) c)"

subsection \<open>Awaiting a timer\<close>

text \<open>
  \<open>timer.async_wait(handler)\<close> of Asio adds one outstanding wait. The member functions
  above never start a wait; the coroutines that suspend on the timers do.
\<close>

definition async_wait :: "steady_timer \<Rightarrow> steady_timer" where
  "async_wait t = t\<lparr>waiters := Suc (waiters t)\<rparr>"

subsection \<open>The reader's step on the queue\<close>

text \<open>
  Modelled from the spec: the reader loop (\<open>detail::reader_op\<close> in
  \<open>aedis/detail/connection_ops.hpp\<close>) is not among the sources. ``decrement_head():
  invoked by [the reader] after each top-level response; when it hits zero, the head is
  removed and its wakeup fired with success.'' The decrement is \<open>req_info::pop\<close> of the source; a
  queue without a head is an error.
\<close>

definition decrement_head :: "connection \<Rightarrow> error + connection" where
  "decrement_head c =
     (case reqs_' c of
        [] \<Rightarrow> Inl OutOfRange
      | a # rest \<Rightarrow>
          (case pop (store_' c a) of
             Inl e \<Rightarrow> Inl e
           | Inr i \<Rightarrow>
               (let c1 = modify a (\<lambda>_. i) c
                in if n_cmds i = 0
                   then Inr ((modify a (\<lambda>j. j\<lparr>timer := cancel_one (timer j)\<rparr>) c1)
                               \<lparr>reqs_' := rest\<rparr>)
                   else Inr c1)))"

subsection \<open>Sequences of queue operations\<close>

text \<open>
  The three operations that change the queue while the connection runs: a submitter
  enqueues (\<open>add_request\<close>), the writer completes a write that covered the entries
  before the position \<open>end\<close> (\<open>on_write\<close>), the reader finishes a top-level response
  (\<open>decrement_head\<close>).
\<close>

datatype op = Enqueue request | WriterDone nat | ReaderDecrement

fun step :: "op \<Rightarrow> connection \<Rightarrow> error + connection" where
  "step (Enqueue r) c = Inr (add_request r c)"
| "step (WriterDone end) c = on_write end c"
| "step ReaderDecrement c = decrement_head c"

fun run :: "op list \<Rightarrow> connection \<Rightarrow> error + connection" where
  "run [] c = Inr c"
| "run (x # xs) c = (case step x c of Inl e \<Rightarrow> Inl e | Inr c' \<Rightarrow> run xs c')"

text \<open>The entries handed out by the \<open>Enqueue\<close> operations of a run, in the order of the calls.\<close>

fun enqueued :: "op list \<Rightarrow> connection \<Rightarrow> addr list" where
  "enqueued [] c = []"
| "enqueued (x # xs) c =
     (case step x c of
        Inl e \<Rightarrow> []
      | Inr c' \<Rightarrow> (case x of Enqueue r \<Rightarrow> [reqs_back c'] | _ \<Rightarrow> []) @ enqueued xs c')"

subsection \<open>Reading the store\<close>

text \<open>The bytes and the command count of the request an entry points to.\<close>

definition req_payload :: "connection \<Rightarrow> addr \<Rightarrow> string" where
  "req_payload c a = (case req (store_' c a) of None \<Rightarrow> [] | Some r \<Rightarrow> payload r)"

definition req_commands :: "connection \<Rightarrow> addr \<Rightarrow> size_t" where
  "req_commands c a = (case req (store_' c a) of None \<Rightarrow> 0 | Some r \<Rightarrow> commands r)"

text \<open>
  The shared pointers of the queue and of the pool are pairwise different objects, all
  of them allocated. The member functions keep this; \<open>release_req_info\<close> keeps it if
  its caller hands back an entry that is in neither container.
\<close>

definition valid_handles :: "connection \<Rightarrow> bool" where
  "valid_handles c =
     (distinct (reqs_' c @ pool_' c) \<and> list_all (\<lambda>a. a < next_' c) (reqs_' c @ pool_' c))"

subsection \<open>Scenarios\<close>

text \<open>
  Modelled from the spec: the callers of the member functions (\<open>run_op\<close>, \<open>exec_op\<close>,
  \<open>writer_op\<close>) are not among the sources. ``Connect to the first resolved endpoint'':
  a socket is installed. ``exec(req, adapter): creates a RequestEntry, enqueues, waits on
  the entry's wakeup.'' The writer ``repeats: await the writer wake signal''.
\<close>

definition connected :: "connection \<Rightarrow> connection" where
  "connected c = c\<lparr>socket_' := Some \<lparr>is_open = True\<rparr>\<rparr>"

definition exec_wait :: "request \<Rightarrow> connection \<Rightarrow> connection" where
  "exec_wait r c =
     (let c1 = add_request r c
      in modify (reqs_back c1) (\<lambda>i. i\<lparr>timer := async_wait (timer i)\<rparr>) c1)"

definition writer_suspended :: "connection \<Rightarrow> connection" where
  "writer_suspended c = c\<lparr>writer_timer_' := async_wait (writer_timer_' c)\<rparr>"

definition req_ping :: request where
  "req_ping = \<lparr>payload = ''PING;'', commands = 1\<rparr>"

definition req_subscribe :: request where
  "req_subscribe = \<lparr>payload = ''SUBSCRIBE ch;'', commands = 0\<rparr>"

definition req_get :: request where
  "req_get = \<lparr>payload = ''GET a;'', commands = 1\<rparr>"

definition fresh :: connection where
  "fresh = new_connection default_config"

definition one_pending :: connection where
  "one_pending = exec_wait req_ping (connected fresh)"

definition three_pending :: connection where
  "three_pending =
     exec_wait req_get (exec_wait req_subscribe (exec_wait req_ping (connected fresh)))"

text \<open>A request was queued before the connection came up; the writer then awaits its signal.\<close>

definition queued_idle :: connection where
  "queued_idle = writer_suspended (connected (exec_wait req_ping fresh))"

definition idle :: connection where
  "idle = writer_suspended (connected fresh)"

text \<open>After the loop of \<open>close\<close> the submitter gave its entry back to the pool.\<close>

definition stale_pool :: connection where
  "stale_pool = release_req_info 0 ((stop_all [0] one_pending)\<lparr>reqs_' := []\<rparr>)"

text \<open>The three entries of \<open>three_pending\<close> while the write of the first two is under way.\<close>

definition write_in_flight :: connection where
  "write_in_flight = three_pending\<lparr>payload_' := ''PING;SUBSCRIBE ch;''\<rparr>"

text \<open>The three entries of \<open>three_pending\<close> on a connection configured not to coalesce.\<close>

definition one_per_write :: connection where
  "one_per_write =
     three_pending\<lparr>cfg_' := (cfg_' three_pending)\<lparr>coalesce_requests_flag := False\<rparr>\<rparr>"

text \<open>Three submissions, a write that covered the first two of them, and one response.\<close>

definition queue_ops :: "op list" where
  "queue_ops =
     [Enqueue req_ping, Enqueue req_subscribe, Enqueue req_get, WriterDone 2, ReaderDecrement]"

text \<open>Further submitters: one \<open>add_request\<close> after the other.\<close>

fun enqueue_all :: "request list \<Rightarrow> connection \<Rightarrow> connection" where
  "enqueue_all [] c = c"
| "enqueue_all (r # rs) c = enqueue_all rs (add_request r c)"

text \<open>
  The connection after \<open>close\<close>: the queue is empty and \<open>socket_\<close> is still not
  null, but closed. (\<open>one_pending\<close> has a socket, so \<open>close\<close> returns.)
\<close>

definition disconnected :: connection where
  "disconnected = (case close 0 one_pending of Inl e \<Rightarrow> fresh | Inr c \<Rightarrow> c)"

section \<open>Auxiliary facts\<close>

subsection \<open>Updates through a shared pointer\<close>


lemma modify_fields:
  "socket_' (modify a f c) = socket_' c"
  "ping_timer_' (modify a f c) = ping_timer_' c"
  "check_idle_timer_' (modify a f c) = check_idle_timer_' c"
  "writer_timer_' (modify a f c) = writer_timer_' c"
  "read_channel_' (modify a f c) = read_channel_' c"
  "push_channel_' (modify a f c) = push_channel_' c"
  "cfg_' (modify a f c) = cfg_' c"
  "read_buffer_' (modify a f c) = read_buffer_' c"
  "payload_' (modify a f c) = payload_' c"
  "cmds_' (modify a f c) = cmds_' c"
  "reqs_' (modify a f c) = reqs_' c"
  "pool_' (modify a f c) = pool_' c"
  "last_data_' (modify a f c) = last_data_' c"
  "next_' (modify a f c) = next_' c"
  by (simp_all add: modify_def)

lemma store_modify:
  "store_' (modify a f c) b = (if b = a then f (store_' c a) else store_' c b)"
  by (simp add: modify_def)

lemma stop_all_fields:
  "socket_' (stop_all es c) = socket_' c"
  "ping_timer_' (stop_all es c) = ping_timer_' c"
  "check_idle_timer_' (stop_all es c) = check_idle_timer_' c"
  "writer_timer_' (stop_all es c) = writer_timer_' c"
  "read_channel_' (stop_all es c) = read_channel_' c"
  "push_channel_' (stop_all es c) = push_channel_' c"
  "cfg_' (stop_all es c) = cfg_' c"
  "read_buffer_' (stop_all es c) = read_buffer_' c"
  "payload_' (stop_all es c) = payload_' c"
  "cmds_' (stop_all es c) = cmds_' c"
  "reqs_' (stop_all es c) = reqs_' c"
  "pool_' (stop_all es c) = pool_' c"
  "last_data_' (stop_all es c) = last_data_' c"
  "next_' (stop_all es c) = next_' c"
  by (induction es arbitrary: c; simp add: modify_fields)+

lemma stop_all_other:
  "a \<notin> set es \<Longrightarrow> store_' (stop_all es c) a = store_' c a"
  by (induction es arbitrary: c) (auto simp: store_modify)

lemma stop_all_stop:
  "stop (store_' (stop_all es c) a) = (a \<in> set es \<or> stop (store_' c a))"
  by (induction es arbitrary: c) (auto simp: store_modify)

lemma stop_all_waiters:
  "waiters (timer (store_' (stop_all es c) a)) =
     waiters (timer (store_' c a)) - count_list es a"
  by (induction es arbitrary: c) (auto simp: store_modify cancel_one_def)

lemma stop_all_expiry:
  "expiry (timer (store_' (stop_all es c) a)) = expiry (timer (store_' c a))"
  by (induction es arbitrary: c) (auto simp: store_modify cancel_one_def)

lemma stop_all_req:
  "req (store_' (stop_all es c) a) = req (store_' c a)"
  "n_cmds (store_' (stop_all es c) a) = n_cmds (store_' c a)"
  by (induction es arbitrary: c; auto simp: store_modify)+

lemma cancel_all_fields:
  "socket_' (cancel_all es c) = socket_' c"
  "ping_timer_' (cancel_all es c) = ping_timer_' c"
  "check_idle_timer_' (cancel_all es c) = check_idle_timer_' c"
  "writer_timer_' (cancel_all es c) = writer_timer_' c"
  "read_channel_' (cancel_all es c) = read_channel_' c"
  "push_channel_' (cancel_all es c) = push_channel_' c"
  "cfg_' (cancel_all es c) = cfg_' c"
  "read_buffer_' (cancel_all es c) = read_buffer_' c"
  "payload_' (cancel_all es c) = payload_' c"
  "cmds_' (cancel_all es c) = cmds_' c"
  "reqs_' (cancel_all es c) = reqs_' c"
  "pool_' (cancel_all es c) = pool_' c"
  "last_data_' (cancel_all es c) = last_data_' c"
  "next_' (cancel_all es c) = next_' c"
  by (induction es arbitrary: c; simp add: modify_fields)+

lemma cancel_cancel: "cancel (cancel t) = cancel t"
  by (simp add: cancel_def)

lemma store_cancel_all:
  "store_' (cancel_all ps c) a =
     (if a \<in> set ps then (store_' c a)\<lparr>timer := cancel (timer (store_' c a))\<rparr>
      else store_' c a)"
  by (induction ps arbitrary: c) (auto simp: store_modify cancel_cancel)



subsection \<open>\<open>close\<close>\<close>

lemma close_Some:
  assumes "socket_' c = Some s"
  shows "close now c =
     Inr ((stop_all (reqs_' c)
            (c\<lparr>socket_' := Some (stream_close s), cmds_' := 0, payload_' := [],
               read_channel_' := channel_cancel (read_channel_' c),
               push_channel_' := channel_cancel (push_channel_' c),
               check_idle_timer_' := expires_at now (check_idle_timer_' c),
               writer_timer_' := cancel (writer_timer_' c),
               ping_timer_' := cancel (ping_timer_' c)\<rparr>))\<lparr>reqs_' := []\<rparr>)"
  using assms by (simp add: close_def Let_def)

lemma close_None: "socket_' c = None \<Longrightarrow> close now c = Inl NullDereference"
  by (simp add: close_def)


subsection \<open>\<open>on_write\<close>\<close>

lemma has_commands_cong:
  "store_' c1 = store_' c \<Longrightarrow> has_commands c1 = has_commands c"
  by (rule ext) (simp add: has_commands_def)

lemma on_write_Inr:
  assumes "e \<le> length (reqs_' c)"
    and "\<forall>a \<in> set (take e (reqs_' c)). req (store_' c a) \<noteq> None"
  shows "on_write e c =
     Inr ((cancel_all (filter (\<lambda>a. \<not> has_commands c a) (take e (reqs_' c)))
            (c\<lparr>payload_' := [],
               reqs_' := filter (has_commands c) (take e (reqs_' c)) @
                         filter (\<lambda>a. \<not> has_commands c a) (take e (reqs_' c)) @
                         drop e (reqs_' c)\<rparr>))
          \<lparr>reqs_' := filter (has_commands c) (take e (reqs_' c)) @ drop e (reqs_' c)\<rparr>)"
proof -
  let ?F = "filter (has_commands c) (take e (reqs_' c))"
  let ?G = "filter (\<lambda>a. \<not> has_commands c a) (take e (reqs_' c))"
  let ?D = "drop e (reqs_' c)"
  have hc: "has_commands (c\<lparr>payload_' := []\<rparr>) = has_commands c"
    by (rule has_commands_cong) simp
  have len: "length ?F + length ?G = e"
    using assms(1) sum_length_filter_compl [of "has_commands c" "take e (reqs_' c)"] by simp
  have d1: "e - length ?F = length ?G"
    using len by arith
  have le: "length ?F \<le> e"
    using len by arith
  have d2: "e - (length ?F + length ?G) = 0"
    using len by arith
  show ?thesis
    using assms
    by (simp add: on_write_def Let_def stable_partition_def hc cancel_all_fields erase_def
        d1 d2 le)
qed



lemma on_write_Inl:
  "length (reqs_' c) < e \<Longrightarrow> on_write e c = Inl InvalidIterator"
  by (simp add: on_write_def)

lemma on_write_result:
  assumes "on_write e c = Inr c'"
  shows "e \<le> length (reqs_' c)"
    and "\<forall>a \<in> set (take e (reqs_' c)). req (store_' c a) \<noteq> None"
proof -
  show "e \<le> length (reqs_' c)"
    using assms by (cases "length (reqs_' c) < e") (simp_all add: on_write_def)
  show "\<forall>a \<in> set (take e (reqs_' c)). req (store_' c a) \<noteq> None"
    using assms
    by (cases "\<exists>a \<in> set (take e (reqs_' c)). req (store_' c a) = None")
       (simp_all add: on_write_def split: if_splits)
qed

lemma on_write_state:
  assumes "on_write e c = Inr c'"
  shows "c' = (cancel_all (filter (\<lambda>a. \<not> has_commands c a) (take e (reqs_' c)))
            (c\<lparr>payload_' := [],
               reqs_' := filter (has_commands c) (take e (reqs_' c)) @
                         filter (\<lambda>a. \<not> has_commands c a) (take e (reqs_' c)) @
                         drop e (reqs_' c)\<rparr>))
          \<lparr>reqs_' := filter (has_commands c) (take e (reqs_' c)) @ drop e (reqs_' c)\<rparr>"
  using assms on_write_Inr [OF on_write_result [OF assms]] by simp

lemma on_write_reqs:
  assumes "on_write e c = Inr c'"
  shows "reqs_' c' = filter (has_commands c) (take e (reqs_' c)) @ drop e (reqs_' c)"
  by (subst on_write_state [OF assms]) simp

lemma on_write_store:
  assumes "on_write e c = Inr c'"
  shows "store_' c' a =
     (if a \<in> set (take e (reqs_' c)) \<and> \<not> has_commands c a
      then (store_' c a)\<lparr>timer := cancel (timer (store_' c a))\<rparr> else store_' c a)"
  by (subst on_write_state [OF assms]) (simp add: store_cancel_all)

lemma on_write_fields:
  assumes "on_write e c = Inr c'"
  shows "payload_' c' = []" "pool_' c' = pool_' c" "next_' c' = next_' c"
    "cmds_' c' = cmds_' c" "socket_' c' = socket_' c" "writer_timer_' c' = writer_timer_' c"
    "cfg_' c' = cfg_' c"
  by (subst on_write_state [OF assms], simp add: cancel_all_fields)+




subsection \<open>\<open>make_req_info\<close> and \<open>add_request\<close>\<close>


lemma make_req_info_fields:
  "reqs_' (snd (make_req_info c)) = reqs_' c"
  "socket_' (snd (make_req_info c)) = socket_' c"
  "cmds_' (snd (make_req_info c)) = cmds_' c"
  "payload_' (snd (make_req_info c)) = payload_' c"
  "writer_timer_' (snd (make_req_info c)) = writer_timer_' c"
  "cfg_' (snd (make_req_info c)) = cfg_' c"
  by (simp_all add: make_req_info_def)

lemma make_req_info_store_other:
  "a \<noteq> fst (make_req_info c) \<Longrightarrow> store_' (snd (make_req_info c)) a = store_' c a"
  by (cases "pool_' c = []") (simp_all add: make_req_info_def)

lemma make_req_info_pool:
  "pool_' (snd (make_req_info c)) = butlast (pool_' c)"
  "next_' (snd (make_req_info c)) = (if pool_' c = [] then Suc (next_' c) else next_' c)"
  "fst (make_req_info c) = (if pool_' c = [] then next_' c else last (pool_' c))"
  by (simp_all add: make_req_info_def)

lemma steady_timer_updates:
  "t\<lparr>expiry := e, waiters := w\<rparr> = \<lparr>expiry = e, waiters = w\<rparr>"
  by (cases t) simp

lemma req_info_updates:
  "i\<lparr>timer := t, req := q, n_cmds := n, stop := s\<rparr> =
   \<lparr>timer = t, req = q, n_cmds = n, stop = s\<rparr>"
  by (cases i) simp

lemma reqs_back_modify: "reqs_back (modify a f c) = reqs_back c"
  by (simp add: reqs_back_def modify_fields)

lemma reqs_back_push: "reqs_back (c\<lparr>reqs_' := q @ [p]\<rparr>) = p"
  by (simp add: reqs_back_def)

lemma add_request_reqs: "reqs_' (add_request r c) = reqs_' c @ [fst (make_req_info c)]"
proof (cases "make_req_info c")
  case (Pair p c0)
  then have "reqs_' c0 = reqs_' c"
    using make_req_info_fields(1) [of c] by simp
  with Pair show ?thesis
    by (simp add: add_request_def Let_def modify_fields)
qed


lemma add_request_store:
  "store_' (add_request r c) a =
     (if a = fst (make_req_info c)
      then \<lparr>timer = \<lparr>expiry = time_point_max, waiters = 0\<rparr>, req = Some r,
            n_cmds = commands r, stop = False\<rparr>
      else store_' c a)"
proof (cases "make_req_info c")
  case (Pair p c0)
  have other: "store_' c0 a = store_' c a" if "a \<noteq> p"
    using that make_req_info_store_other [of a c] Pair by simp
  have "store_' (add_request r c) a =
      (if a = p
       then (store_' c0 p)\<lparr>timer := (timer (store_' c0 p))\<lparr>expiry := time_point_max, waiters := 0\<rparr>,
              req := Some r, n_cmds := commands r, stop := False\<rparr>
       else store_' c0 a)"
    using Pair
    by (simp add: add_request_def Let_def reqs_back_modify reqs_back_push store_modify
        modify_fields expires_at_def)
  then show ?thesis
    using Pair other by (simp add: steady_timer_updates req_info_updates)
qed

lemma add_request_writer_timer:
  "writer_timer_' (add_request r c) =
     (if socket_' c \<noteq> None \<and> cmds_' c = 0 \<and> payload_' c = []
      then cancel (writer_timer_' c) else writer_timer_' c)"
proof (cases "make_req_info c")
  case (Pair p c0)
  then have "socket_' c0 = socket_' c" "cmds_' c0 = cmds_' c" "payload_' c0 = payload_' c"
    "writer_timer_' c0 = writer_timer_' c"
    using make_req_info_fields [of c] by simp_all
  with Pair show ?thesis
    by (auto simp: add_request_def Let_def modify_fields)
qed

lemma add_request_fields:
  "socket_' (add_request r c) = socket_' c"
  "cmds_' (add_request r c) = cmds_' c"
  "payload_' (add_request r c) = payload_' c"
  "cfg_' (add_request r c) = cfg_' c"
proof -
  obtain p c0 where pc: "make_req_info c = (p, c0)"
    by (cases "make_req_info c")
  then have eq: "socket_' c0 = socket_' c" "cmds_' c0 = cmds_' c" "payload_' c0 = payload_' c"
    "cfg_' c0 = cfg_' c"
    using make_req_info_fields [of c] by simp_all
  show "socket_' (add_request r c) = socket_' c"
    using pc eq by (simp add: add_request_def Let_def modify_fields)
  show "cmds_' (add_request r c) = cmds_' c"
    using pc eq by (simp add: add_request_def Let_def modify_fields)
  show "payload_' (add_request r c) = payload_' c"
    using pc eq by (simp add: add_request_def Let_def modify_fields)
  show "cfg_' (add_request r c) = cfg_' c"
    using pc eq by (simp add: add_request_def Let_def modify_fields)
qed

lemma add_request_pool:
  "pool_' (add_request r c) = butlast (pool_' c)"
  "next_' (add_request r c) = (if pool_' c = [] then Suc (next_' c) else next_' c)"
proof -
  obtain p c0 where pc: "make_req_info c = (p, c0)"
    by (cases "make_req_info c")
  then have eq: "pool_' c0 = butlast (pool_' c)"
    "next_' c0 = (if pool_' c = [] then Suc (next_' c) else next_' c)"
    using make_req_info_pool [of c] by simp_all
  show "pool_' (add_request r c) = butlast (pool_' c)"
    using pc eq(1) by (simp add: add_request_def Let_def modify_fields)
  show "next_' (add_request r c) = (if pool_' c = [] then Suc (next_' c) else next_' c)"
    using pc eq(2) by (simp add: add_request_def Let_def modify_fields)
qed


subsection \<open>The scenarios\<close>

lemma one_pending_facts:
  "socket_' one_pending = Some \<lparr>is_open = True\<rparr>"
  "reqs_' one_pending = [0]"
  "waiters (timer (store_' one_pending 0)) = 1"
  "stop (store_' one_pending 0) = False"
  by (simp_all add: one_pending_def exec_wait_def add_request_def make_req_info_def
      new_connection_def connected_def fresh_def modify_def reqs_back_def Let_def async_wait_def
      expires_at_def new_req_info_def new_timer_def)


subsection \<open>Submitters and the scenarios\<close>

lemma exec_wait_reqs: "reqs_' (exec_wait r c) = reqs_' c @ [fst (make_req_info c)]"
  by (simp add: exec_wait_def Let_def modify_fields add_request_reqs)

lemma exec_wait_store:
  "store_' (exec_wait r c) a =
     (if a = fst (make_req_info c)
      then \<lparr>timer = \<lparr>expiry = time_point_max, waiters = 1\<rparr>, req = Some r,
            n_cmds = commands r, stop = False\<rparr>
      else store_' c a)"
  by (simp add: exec_wait_def Let_def store_modify add_request_store reqs_back_def
      add_request_reqs async_wait_def)

lemma exec_wait_fields:
  "socket_' (exec_wait r c) = socket_' c"
  "cmds_' (exec_wait r c) = cmds_' c"
  "payload_' (exec_wait r c) = payload_' c"
  "cfg_' (exec_wait r c) = cfg_' c"
  "pool_' (exec_wait r c) = butlast (pool_' c)"
  "next_' (exec_wait r c) = (if pool_' c = [] then Suc (next_' c) else next_' c)"
  "writer_timer_' (exec_wait r c) =
     (if socket_' c \<noteq> None \<and> cmds_' c = 0 \<and> payload_' c = []
      then cancel (writer_timer_' c) else writer_timer_' c)"
  by (simp_all add: exec_wait_def Let_def modify_fields add_request_fields add_request_pool
      add_request_writer_timer)

lemma connected_fresh_facts:
  "socket_' (connected fresh) = Some \<lparr>is_open = True\<rparr>"
  "reqs_' (connected fresh) = []" "pool_' (connected fresh) = []"
  "next_' (connected fresh) = 0" "cmds_' (connected fresh) = 0"
  "payload_' (connected fresh) = []"
  "cfg_' (connected fresh) = default_config"
  by (simp_all add: connected_def fresh_def new_connection_def)

lemma three_pending_facts:
  "socket_' three_pending = Some \<lparr>is_open = True\<rparr>"
  "reqs_' three_pending = [0, 1, 2]"
  "payload_' three_pending = []"
  "cmds_' three_pending = 0"
  "coalesce_requests_flag (cfg_' three_pending)"
  "store_' three_pending 0 =
     \<lparr>timer = \<lparr>expiry = time_point_max, waiters = 1\<rparr>, req = Some req_ping,
      n_cmds = 1, stop = False\<rparr>"
  "store_' three_pending (Suc 0) =
     \<lparr>timer = \<lparr>expiry = time_point_max, waiters = 1\<rparr>, req = Some req_subscribe,
      n_cmds = 0, stop = False\<rparr>"
  "store_' three_pending 2 =
     \<lparr>timer = \<lparr>expiry = time_point_max, waiters = 1\<rparr>, req = Some req_get,
      n_cmds = 1, stop = False\<rparr>"
  by (simp_all add: three_pending_def exec_wait_reqs exec_wait_store exec_wait_fields
      make_req_info_pool connected_fresh_facts req_ping_def req_subscribe_def req_get_def
      default_config_def)

lemma has_commands_iff:
  "req (store_' c a) = Some r \<Longrightarrow> has_commands c a = (commands r \<noteq> 0)"
  by (simp add: has_commands_def)

lemma fresh_facts:
  "socket_' fresh = None" "reqs_' fresh = []" "pool_' fresh = []" "next_' fresh = 0"
  "cmds_' fresh = 0" "payload_' fresh = []" "waiters (writer_timer_' fresh) = 0"
  by (simp_all add: fresh_def new_connection_def expires_at_def)

lemma queued_idle_facts:
  "socket_' queued_idle = Some \<lparr>is_open = True\<rparr>"
  "reqs_' queued_idle = [0]"
  "payload_' queued_idle = []"
  "cmds_' queued_idle = 0"
  "waiters (writer_timer_' queued_idle) = 1"
  by (simp_all add: queued_idle_def writer_suspended_def connected_def exec_wait_reqs
      exec_wait_fields make_req_info_pool fresh_facts async_wait_def)

lemma idle_facts:
  "socket_' idle = Some \<lparr>is_open = True\<rparr>"
  "reqs_' idle = []"
  "payload_' idle = []"
  "cmds_' idle = 0"
  "waiters (writer_timer_' idle) = 1"
  by (simp_all add: idle_def writer_suspended_def connected_def fresh_facts async_wait_def)

subsection \<open>The handles stay distinct\<close>

lemma valid_handles_new: "valid_handles (new_connection cfg)"
  by (simp add: valid_handles_def new_connection_def)

lemma make_req_info_not_queued:
  assumes "valid_handles c"
  shows "fst (make_req_info c) \<notin> set (reqs_' c)"
proof (cases "pool_' c = []")
  case True
  then show ?thesis
    using assms by (auto simp: valid_handles_def make_req_info_pool list_all_iff)
next
  case False
  then have "last (pool_' c) \<in> set (pool_' c)"
    by simp
  then show ?thesis
    using assms False by (auto simp: valid_handles_def make_req_info_pool)
qed

lemma valid_handles_add_request:
  assumes "valid_handles c"
  shows "valid_handles (add_request r c)"
proof (cases "pool_' c = []")
  case True
  then show ?thesis
    using assms
    by (auto simp: valid_handles_def add_request_reqs add_request_pool make_req_info_pool
        list_all_iff)
next
  case False
  then obtain ps p where ps: "pool_' c = ps @ [p]"
    by (metis append_butlast_last_id)
  then show ?thesis
    using assms
    by (auto simp: valid_handles_def add_request_reqs add_request_pool make_req_info_pool
        list_all_iff)
qed

lemma valid_handles_on_write:
  assumes "on_write e c = Inr c'" and "valid_handles c"
  shows "valid_handles c'"
proof -
  let ?q = "filter (has_commands c) (take e (reqs_' c)) @ drop e (reqs_' c)"
  have sub: "set ?q \<subseteq> set (reqs_' c)"
    using set_take_subset [of e "reqs_' c"] set_drop_subset [of e "reqs_' c"] by auto
  have "distinct (take e (reqs_' c) @ drop e (reqs_' c))"
    using assms(2) by (simp add: valid_handles_def)
  then have "distinct ?q"
    by (simp only: distinct_append) auto
  with sub show ?thesis
    using assms(2)
    by (auto simp: valid_handles_def on_write_reqs [OF assms(1)] on_write_fields [OF assms(1)]
        list_all_iff)
qed

lemma valid_handles_release_req_info:
  assumes "valid_handles c" and "info \<notin> set (reqs_' c @ pool_' c)" and "info < next_' c"
  shows "valid_handles (release_req_info info c)"
  using assms by (auto simp: valid_handles_def release_req_info_def list_all_iff)

lemma stale_pool_facts:
  "pool_' stale_pool = [0]" "reqs_' stale_pool = []"
  "store_' stale_pool 0 =
     \<lparr>timer = \<lparr>expiry = time_point_max, waiters = 0\<rparr>, req = Some req_ping,
      n_cmds = 1, stop = True\<rparr>"
  by (simp_all add: stale_pool_def release_req_info_def stop_all_fields modify_def
      one_pending_def exec_wait_reqs exec_wait_store exec_wait_fields make_req_info_pool
      connected_fresh_facts cancel_one_def req_ping_def)

subsection \<open>\<open>coalesce_requests\<close>\<close>

lemma req_payload_cong:
  "store_' c1 = store_' c \<Longrightarrow> req_payload c1 = req_payload c"
  "store_' c1 = store_' c \<Longrightarrow> req_commands c1 = req_commands c"
  by (rule ext, simp add: req_payload_def req_commands_def)+

lemma take_drop_step:
  assumes "i < sz" and "sz \<le> length q"
  shows "take (sz - i) (drop i q) = q ! i # take (sz - (i + 1)) (drop (i + 1) q)"
proof -
  have "drop i q = q ! i # drop (Suc i) q"
    using assms by (simp add: Cons_nth_drop_Suc)
  moreover have "sz - i = Suc (sz - (i + 1))"
    using assms by arith
  ultimately show ?thesis
    by simp
qed

lemma coalesce_loop_Inr:
  assumes "sz \<le> length (reqs_' c)"
    and "\<forall>a \<in> set (take (sz - i) (drop i (reqs_' c))). req (store_' c a) \<noteq> None"
  shows "coalesce_loop i sz c =
     Inr (c\<lparr>payload_' := payload_' c @
                concat (map (req_payload c) (take (sz - i) (drop i (reqs_' c)))),
            cmds_' := cmds_' c +
                sum_list (map (req_commands c) (take (sz - i) (drop i (reqs_' c))))\<rparr>)"
  using assms
proof (induction i sz c rule: coalesce_loop.induct)
  case (1 i sz c)
  show ?case
  proof (cases "i < sz")
    case False
    then show ?thesis
      by (subst coalesce_loop.simps) simp
  next
    case True
    let ?p = "reqs_' c ! i"
    have range: "take (sz - i) (drop i (reqs_' c)) =
        ?p # take (sz - (i + 1)) (drop (i + 1) (reqs_' c))"
      using True "1.prems"(1) by (rule take_drop_step)
    have at: "at_reqs c i = Inr ?p"
      using True "1.prems"(1) by (simp add: at_reqs_def)
    from "1.prems"(2) range obtain r where r: "req (store_' c ?p) = Some r"
      by auto
    let ?c1 = "c\<lparr>payload_' := payload_' c @ payload r, cmds_' := cmds_' c + commands r\<rparr>"
    have same: "req_payload ?c1 = req_payload c" "req_commands ?c1 = req_commands c"
      by (rule req_payload_cong, simp)+
    have p1: "sz \<le> length (reqs_' ?c1)"
      using "1.prems"(1) by simp
    have p2: "\<forall>a \<in> set (take (sz - (i + 1)) (drop (i + 1) (reqs_' ?c1))).
        req (store_' ?c1 a) \<noteq> None"
      using "1.prems"(2) range by simp
    have here: "req_payload c ?p = payload r" "req_commands c ?p = commands r"
      using r by (simp_all add: req_payload_def req_commands_def)
    have "coalesce_loop i sz c = coalesce_loop (i + 1) sz ?c1"
      using True at r by (subst coalesce_loop.simps) simp
    also have "\<dots> = Inr (?c1\<lparr>payload_' := payload_' ?c1 @
                concat (map (req_payload ?c1) (take (sz - (i + 1)) (drop (i + 1) (reqs_' ?c1)))),
            cmds_' := cmds_' ?c1 +
                sum_list (map (req_commands ?c1)
                  (take (sz - (i + 1)) (drop (i + 1) (reqs_' ?c1))))\<rparr>)"
      using "1.IH" [OF True at r p1 p2] .
    finally show ?thesis
      by (simp add: same range here add.assoc)
  qed
qed

lemma coalesce_requests_Inr:
  assumes "reqs_' c \<noteq> []" and "payload_' c = []"
    and "\<forall>a \<in> set (take (if coalesce_requests_flag (cfg_' c) then length (reqs_' c) else 1)
            (reqs_' c)). req (store_' c a) \<noteq> None"
  shows "coalesce_requests c =
     Inr (c\<lparr>payload_' := concat (map (req_payload c)
               (take (if coalesce_requests_flag (cfg_' c) then length (reqs_' c) else 1)
                  (reqs_' c))),
            cmds_' := cmds_' c + sum_list (map (req_commands c)
               (take (if coalesce_requests_flag (cfg_' c) then length (reqs_' c) else 1)
                  (reqs_' c)))\<rparr>)"
proof -
  let ?k = "if coalesce_requests_flag (cfg_' c) then length (reqs_' c) else 1"
  have k: "?k \<le> length (reqs_' c)"
    using assms(1) by (cases "reqs_' c") simp_all
  have nn: "\<forall>a \<in> set (take (?k - 0) (drop 0 (reqs_' c))). req (store_' c a) \<noteq> None"
    using assms(3) by simp
  have "coalesce_requests c = coalesce_loop 0 ?k c"
    using assms(1,2) by (simp add: coalesce_requests_def)
  also note coalesce_loop_Inr [OF k nn]
  finally show ?thesis
    using assms(2) by simp
qed

lemma three_pending_payloads:
  "req_payload three_pending 0 = ''PING;''"
  "req_payload three_pending (Suc 0) = ''SUBSCRIBE ch;''"
  "req_payload three_pending 2 = ''GET a;''"
  "req_commands three_pending 0 = 1"
  "req_commands three_pending (Suc 0) = 0"
  "req_commands three_pending 2 = 1"
  by (simp_all add: req_payload_def req_commands_def three_pending_facts req_ping_def
      req_subscribe_def req_get_def)

lemma one_per_write_facts:
  "reqs_' one_per_write = [0, 1, 2]" "payload_' one_per_write = []"
  "cmds_' one_per_write = 0" "\<not> coalesce_requests_flag (cfg_' one_per_write)"
  "store_' one_per_write = store_' three_pending"
  "req_payload one_per_write = req_payload three_pending"
  "req_commands one_per_write = req_commands three_pending"
proof -
  show "store_' one_per_write = store_' three_pending"
    by (simp add: one_per_write_def)
  then show "req_payload one_per_write = req_payload three_pending"
    "req_commands one_per_write = req_commands three_pending"
    by (rule req_payload_cong)+
qed (simp_all add: one_per_write_def three_pending_facts)

subsection \<open>The queue along a run\<close>

lemma decrement_head_reqs:
  assumes "decrement_head c = Inr c'"
  shows "reqs_' c' = reqs_' c \<or> reqs_' c' = tl (reqs_' c)"
proof (cases "reqs_' c")
  case Nil
  then show ?thesis
    using assms by (simp add: decrement_head_def)
next
  case (Cons a rest)
  show ?thesis
  proof (cases "pop (store_' c a)")
    case (Inl e)
    then show ?thesis
      using assms Cons by (simp add: decrement_head_def)
  next
    case (Inr i)
    then show ?thesis
      using assms Cons
      by (auto simp: decrement_head_def Let_def modify_fields split: if_splits)
  qed
qed

lemma step_subseq:
  assumes "step x c = Inr c'"
  shows "subseq (reqs_' c') (reqs_' c @ (case x of Enqueue r \<Rightarrow> [reqs_back c'] | _ \<Rightarrow> []))"
proof (cases x)
  case (Enqueue r)
  then have "c' = add_request r c"
    using assms by simp
  then show ?thesis
    using Enqueue by (simp add: reqs_back_def add_request_reqs)
next
  case (WriterDone e)
  then have w: "on_write e c = Inr c'"
    using assms by simp
  have "subseq (filter (has_commands c) (take e (reqs_' c)) @ drop e (reqs_' c))
      (take e (reqs_' c) @ drop e (reqs_' c))"
    by (intro list_emb_append_mono subseq_filter_left subseq_order.refl)
  then show ?thesis
    using WriterDone by (simp add: on_write_reqs [OF w])
next
  case ReaderDecrement
  then have "decrement_head c = Inr c'"
    using assms by simp
  from decrement_head_reqs [OF this] have "subseq (reqs_' c') (reqs_' c)"
  proof
    assume "reqs_' c' = tl (reqs_' c)"
    then show ?thesis
      by (cases "reqs_' c") (auto intro: subseq_Cons')
  qed simp
  then show ?thesis
    using ReaderDecrement by simp
qed

lemma run_subseq:
  assumes "run ops c = Inr c'"
  shows "subseq (reqs_' c') (reqs_' c @ enqueued ops c)"
  using assms
proof (induction ops arbitrary: c)
  case Nil
  then show ?case
    by simp
next
  case (Cons x xs)
  then obtain c1 where c1: "step x c = Inr c1" and rest: "run xs c1 = Inr c'"
    by (cases "step x c") simp_all
  let ?new = "case x of Enqueue r \<Rightarrow> [reqs_back c1] | _ \<Rightarrow> []"
  have "subseq (reqs_' c') (reqs_' c1 @ enqueued xs c1)"
    by (rule Cons.IH [OF rest])
  also have "subseq (reqs_' c1 @ enqueued xs c1) ((reqs_' c @ ?new) @ enqueued xs c1)"
    by (intro list_emb_append_mono step_subseq [OF c1] subseq_order.refl)
  finally show ?case
    using c1 by simp
qed

lemma decrement_head_last_response:
  assumes "reqs_' c = a # rest" and "n_cmds (store_' c a) = 1"
  shows "\<exists>c'. decrement_head c = Inr c' \<and> reqs_' c' = rest"
  using assms by (simp add: decrement_head_def pop_def Let_def)

lemma one_pending_entry:
  "store_' one_pending 0 =
     \<lparr>timer = \<lparr>expiry = time_point_max, waiters = 1\<rparr>, req = Some req_ping,
      n_cmds = 1, stop = False\<rparr>"
  by (simp add: one_pending_def exec_wait_store make_req_info_pool connected_fresh_facts
      req_ping_def)

subsection \<open>Enqueueing without a connection\<close>

lemma enqueue_all_fields:
  "socket_' (enqueue_all rs c) = socket_' c"
  "cmds_' (enqueue_all rs c) = cmds_' c"
  "payload_' (enqueue_all rs c) = payload_' c"
  "cfg_' (enqueue_all rs c) = cfg_' c"
  by (induction rs arbitrary: c; simp add: add_request_fields)+

lemma add_request_old_entries:
  assumes "valid_handles c" and "a \<in> set (reqs_' c)"
  shows "store_' (add_request r c) a = store_' c a"
  using make_req_info_not_queued [OF assms(1)] assms(2) by (auto simp: add_request_store)

lemma enqueue_all_queue:
  assumes "valid_handles c"
  shows "valid_handles (enqueue_all rs c) \<and>
     (\<exists>more. reqs_' (enqueue_all rs c) = reqs_' c @ more \<and>
        map (\<lambda>a. req (store_' (enqueue_all rs c) a)) more = map Some rs) \<and>
     (\<forall>a \<in> set (reqs_' c). store_' (enqueue_all rs c) a = store_' c a)"
  using assms
proof (induction rs arbitrary: c)
  case Nil
  then show ?case
    by simp
next
  case (Cons r rs)
  let ?c1 = "add_request r c"
  let ?p = "fst (make_req_info c)"
  let ?d = "enqueue_all rs ?c1"
  have v1: "valid_handles ?c1"
    by (rule valid_handles_add_request [OF Cons.prems])
  have q1: "reqs_' ?c1 = reqs_' c @ [?p]"
    by (rule add_request_reqs)
  from Cons.IH [OF v1] obtain more where
    v: "valid_handles ?d" and
    q: "reqs_' ?d = reqs_' ?c1 @ more" and
    m: "map (\<lambda>a. req (store_' ?d a)) more = map Some rs" and
    old: "\<forall>a \<in> set (reqs_' ?c1). store_' ?d a = store_' ?c1 a"
    by blast
  have "store_' ?d ?p = store_' ?c1 ?p"
    using old q1 by simp
  then have p: "req (store_' ?d ?p) = Some r"
    by (simp add: add_request_store)
  have "reqs_' ?d = reqs_' c @ (?p # more)"
    using q q1 by simp
  moreover have "map (\<lambda>a. req (store_' ?d a)) (?p # more) = map Some (r # rs)"
    using p m by simp
  moreover have "\<forall>a \<in> set (reqs_' c). store_' ?d a = store_' c a"
    using old q1 add_request_old_entries [OF Cons.prems] by simp
  ultimately show ?case
    using v by (simp del: append.simps list.map)
qed

lemma disconnected_facts:
  "socket_' disconnected = Some \<lparr>is_open = False\<rparr>"
  "reqs_' disconnected = []" "pool_' disconnected = []" "next_' disconnected = 1"
  "payload_' disconnected = []" "cmds_' disconnected = 0"
  "coalesce_requests_flag (cfg_' disconnected)"
proof -
  have s: "socket_' one_pending = Some \<lparr>is_open = True\<rparr>"
    by (rule one_pending_facts)
  have p: "pool_' one_pending = []" "next_' one_pending = 1" "cfg_' one_pending = default_config"
    by (simp_all add: one_pending_def exec_wait_fields connected_fresh_facts)
  note d = disconnected_def close_Some [OF s] stop_all_fields stream_close_def
  show "socket_' disconnected = Some \<lparr>is_open = False\<rparr>"
    by (simp add: d)
  show "reqs_' disconnected = []"
    by (simp add: d)
  show "pool_' disconnected = []"
    by (simp add: d p)
  show "next_' disconnected = 1"
    by (simp add: d p)
  show "payload_' disconnected = []"
    by (simp add: d)
  show "cmds_' disconnected = 0"
    by (simp add: d)
  show "coalesce_requests_flag (cfg_' disconnected)"
    by (simp add: d p default_config_def)
qed

lemma queued_offline_facts:
  "socket_' (exec_wait req_ping fresh) = None"
  "reqs_' (exec_wait req_ping fresh) = [0]"
  "pool_' (exec_wait req_ping fresh) = []"
  "next_' (exec_wait req_ping fresh) = 1"
  "payload_' (exec_wait req_ping fresh) = []"
  "coalesce_requests_flag (cfg_' (exec_wait req_ping fresh))"
  "req (store_' (exec_wait req_ping fresh) 0) = Some req_ping"
  by (simp_all add: exec_wait_fields exec_wait_reqs exec_wait_store make_req_info_pool
      fresh_facts fresh_def new_connection_def default_config_def)

section \<open>Properties\<close>

subsection \<open>\<open>req_info\<close>\<close>


text \<open>
  C7. \<open>expects_response\<close> holds exactly when the counter \<open>n_cmds\<close> is greater than
  zero. If \<open>n_cmds\<close> is not zero, \<open>pop\<close> does not run into its assertion and returns
  the entry with \<open>n_cmds\<close> smaller by exactly one (no wrap-around) and with its other
  fields as they were.
\<close>

theorem req_info_expects_response_pop:
  "(expects_response e \<longleftrightarrow> 0 < n_cmds e) \<and>
   (n_cmds e \<noteq> 0 \<longrightarrow>
      (\<exists>e'. pop e = Inr e' \<and> unat (n_cmds e') + 1 = unat (n_cmds e) \<and>
            n_cmds e' = n_cmds e - 1 \<and> e' = e\<lparr>n_cmds := n_cmds e'\<rparr>))"
proof -
  have pos: "(n_cmds e \<noteq> 0) = (0 < n_cmds e)"
    by (simp add: word_neq_0_conv)
  have dec: "unat (n_cmds e - 1) + 1 = unat (n_cmds e)" if "n_cmds e \<noteq> 0"
    using that unat_gt_0 [of "n_cmds e"] by (simp add: unat_minus_one)
  show ?thesis
    using pos dec by (simp add: expects_response_def pop_def)
qed

theorem req_info_expects_response_pop_witness:
  "expects_response (new_req_info\<lparr>n_cmds := 2\<rparr>) \<and>
   pop (new_req_info\<lparr>n_cmds := 2\<rparr>) = Inr (new_req_info\<lparr>n_cmds := 1\<rparr>)"
  using req_info_expects_response_pop [of "new_req_info\<lparr>n_cmds := 2\<rparr>"]
  by (auto simp: new_req_info_def)


subsection \<open>\<open>close\<close>\<close>

text \<open>
  C5. If a socket exists, \<open>close\<close> returns, and afterwards: every entry that was in
  the queue has \<open>stop\<close> set and has had one wait on its timer completed for each of
  its occurrences in the queue (an entry, awaited by its one submitter, has no wait
  left); the queue is empty; the read and the push channel have no operation
  outstanding; the three timers have no wait outstanding (the idle timer expires at
  the time of the call); \<open>cmds_\<close> is zero, \<open>payload_\<close> is empty, and the socket is
  closed.
\<close>

theorem close_stops_and_wakes_every_entry:
  assumes "socket_' c = Some s"
  shows "\<exists>c'. close now c = Inr c' \<and>
     (\<forall>a \<in> set (reqs_' c).
        stop (store_' c' a) \<and>
        waiters (timer (store_' c' a)) =
          waiters (timer (store_' c a)) - count_list (reqs_' c) a \<and>
        (waiters (timer (store_' c a)) \<le> 1 \<longrightarrow> waiters (timer (store_' c' a)) = 0)) \<and>
     reqs_' c' = [] \<and>
     pending (read_channel_' c') = 0 \<and> pending (push_channel_' c') = 0 \<and>
     waiters (check_idle_timer_' c') = 0 \<and> expiry (check_idle_timer_' c') = now \<and>
     waiters (writer_timer_' c') = 0 \<and> waiters (ping_timer_' c') = 0 \<and>
     cmds_' c' = 0 \<and> payload_' c' = [] \<and>
     socket_' c' = Some (s\<lparr>is_open := False\<rparr>)"
proof -
  let ?c0 = "c\<lparr>socket_' := Some (stream_close s), cmds_' := 0, payload_' := [],
               read_channel_' := channel_cancel (read_channel_' c),
               push_channel_' := channel_cancel (push_channel_' c),
               check_idle_timer_' := expires_at now (check_idle_timer_' c),
               writer_timer_' := cancel (writer_timer_' c),
               ping_timer_' := cancel (ping_timer_' c)\<rparr>"
  let ?c' = "(stop_all (reqs_' c) ?c0)\<lparr>reqs_' := []\<rparr>"
  have res: "close now c = Inr ?c'"
    by (rule close_Some [OF assms])
  have st: "store_' ?c' = store_' (stop_all (reqs_' c) ?c0)"
    by simp
  have entries: "stop (store_' ?c' a) \<and>
        waiters (timer (store_' ?c' a)) =
          waiters (timer (store_' c a)) - count_list (reqs_' c) a \<and>
        (waiters (timer (store_' c a)) \<le> 1 \<longrightarrow> waiters (timer (store_' ?c' a)) = 0)"
    if "a \<in> set (reqs_' c)" for a
  proof -
    have "count_list (reqs_' c) a \<noteq> 0"
      using that count_list_0_iff [of "reqs_' c" a] by blast
    then have "0 < count_list (reqs_' c) a"
      by simp
    then show ?thesis
      using that by (simp add: stop_all_stop stop_all_waiters)
  qed
  have rest: "reqs_' ?c' = [] \<and>
     pending (read_channel_' ?c') = 0 \<and> pending (push_channel_' ?c') = 0 \<and>
     waiters (check_idle_timer_' ?c') = 0 \<and> expiry (check_idle_timer_' ?c') = now \<and>
     waiters (writer_timer_' ?c') = 0 \<and> waiters (ping_timer_' ?c') = 0 \<and>
     cmds_' ?c' = 0 \<and> payload_' ?c' = [] \<and>
     socket_' ?c' = Some (s\<lparr>is_open := False\<rparr>)"
    by (simp add: stop_all_fields channel_cancel_def expires_at_def cancel_def stream_close_def)
  from res entries rest show ?thesis
    by blast
qed

theorem close_stops_and_wakes_every_entry_witness:
  "\<exists>c'. close 7 one_pending = Inr c' \<and> stop (store_' c' 0) \<and>
        waiters (timer (store_' c' 0)) = 0 \<and> reqs_' c' = [] \<and>
        socket_' c' = Some \<lparr>is_open = False\<rparr>"
proof -
  from close_stops_and_wakes_every_entry [OF one_pending_facts(1), of 7]
  obtain c' where c': "close 7 one_pending = Inr c'"
      "\<forall>a \<in> set (reqs_' one_pending).
        stop (store_' c' a) \<and>
        waiters (timer (store_' c' a)) =
          waiters (timer (store_' one_pending a)) - count_list (reqs_' one_pending) a \<and>
        (waiters (timer (store_' one_pending a)) \<le> 1 \<longrightarrow> waiters (timer (store_' c' a)) = 0)"
      "reqs_' c' = []" "socket_' c' = Some (\<lparr>is_open = True\<rparr>\<lparr>is_open := False\<rparr>)"
    by blast
  from c'(2) have "stop (store_' c' 0) \<and> waiters (timer (store_' c' 0)) = 0"
    by (simp add: one_pending_facts)
  with c'(1,3,4) show ?thesis
    by simp
qed


text \<open>
  C8. The first statement of \<open>close\<close> dereferences \<open>socket_\<close>: on a null socket,
  which is what the constructor leaves, \<open>close\<close> ends in the null dereference; with a
  socket it returns.
\<close>

theorem close_dereferences_null_socket:
  "(socket_' c = None \<longrightarrow> close now c = Inl NullDereference) \<and>
   (socket_' c \<noteq> None \<longrightarrow> (\<exists>c'. close now c = Inr c')) \<and>
   close now (new_connection cfg) = Inl NullDereference"
proof -
  have "socket_' (new_connection cfg) = None"
    by (simp add: new_connection_def)
  then show ?thesis
    using close_None close_Some by blast
qed

theorem close_dereferences_null_socket_witness:
  "socket_' (new_connection default_config) = None \<and>
   close 0 (new_connection default_config) = Inl NullDereference \<and>
   socket_' one_pending \<noteq> None \<and> (\<exists>c'. close 0 one_pending = Inr c')"
  using close_dereferences_null_socket [of "new_connection default_config" 0 default_config]
    close_dereferences_null_socket [of one_pending 0 default_config]
  by (simp add: new_connection_def one_pending_facts)



subsection \<open>\<open>on_write\<close>\<close>

text \<open>
  C3. Let \<open>end\<close> be a position of the queue and let no entry before it have a null
  \<open>req\<close>. Then \<open>on_write\<close> returns and the queue is what it was without the
  entries before \<open>end\<close> whose request has \<open>commands() = 0\<close>, in the same order. Such
  an entry has no wait left on its timer (its wakeup has fired) and, the handles of the
  queue being distinct, is no longer in the queue; an entry before \<open>end\<close> whose
  request has commands is still in the queue and is unchanged.
\<close>

theorem on_write_removes_response_free_entries:
  assumes "e \<le> length (reqs_' c)"
    and "\<forall>a \<in> set (take e (reqs_' c)). req (store_' c a) \<noteq> None"
  shows "\<exists>c'. on_write e c = Inr c' \<and>
     reqs_' c' = filter (\<lambda>a. req_commands c a \<noteq> 0) (take e (reqs_' c)) @ drop e (reqs_' c) \<and>
     (\<forall>a \<in> set (take e (reqs_' c)).
        (req_commands c a = 0 \<longrightarrow>
           waiters (timer (store_' c' a)) = 0 \<and>
           (distinct (reqs_' c) \<longrightarrow> a \<notin> set (reqs_' c'))) \<and>
        (req_commands c a \<noteq> 0 \<longrightarrow> a \<in> set (reqs_' c') \<and> store_' c' a = store_' c a))"
proof -
  let ?q = "reqs_' c"
  from on_write_Inr [OF assms] obtain c' where c': "on_write e c = Inr c'"
    by blast
  have hc: "has_commands c a = (req_commands c a \<noteq> 0)" if "a \<in> set (take e ?q)" for a
    using that assms(2) by (auto simp: has_commands_def req_commands_def)
  then have flt: "filter (has_commands c) (take e ?q) =
      filter (\<lambda>a. req_commands c a \<noteq> 0) (take e ?q)"
    by (simp cong: filter_cong)
  have q': "reqs_' c' = filter (\<lambda>a. req_commands c a \<noteq> 0) (take e ?q) @ drop e ?q"
    using on_write_reqs [OF c'] flt by simp
  have entry: "(req_commands c a = 0 \<longrightarrow>
           waiters (timer (store_' c' a)) = 0 \<and>
           (distinct ?q \<longrightarrow> a \<notin> set (reqs_' c'))) \<and>
        (req_commands c a \<noteq> 0 \<longrightarrow> a \<in> set (reqs_' c') \<and> store_' c' a = store_' c a)"
    if a: "a \<in> set (take e ?q)" for a
  proof (cases "req_commands c a = 0")
    case True
    then have "\<not> has_commands c a"
      using hc [OF a] by simp
    then have w: "waiters (timer (store_' c' a)) = 0"
      using a by (simp add: on_write_store [OF c'] cancel_def)
    have "a \<notin> set (drop e ?q)" if "distinct ?q"
    proof -
      from that have "distinct (take e ?q @ drop e ?q)"
        by simp
      then show ?thesis
        using a by (simp only: distinct_append) blast
    qed
    then show ?thesis
      using True w q' by simp
  next
    case False
    then have "has_commands c a"
      using hc [OF a] by simp
    then have "store_' c' a = store_' c a"
      by (simp add: on_write_store [OF c'])
    then show ?thesis
      using False a q' by simp
  qed
  from c' q' entry show ?thesis
    by blast
qed

theorem on_write_removes_response_free_entries_witness:
  "\<exists>c'. on_write 2 three_pending = Inr c' \<and> reqs_' c' = [0, 2] \<and>
        waiters (timer (store_' c' 1)) = 0 \<and>
        store_' c' 0 = store_' three_pending 0"
proof -
  have cmds: "req_commands three_pending 0 = 1" "req_commands three_pending (Suc 0) = 0"
    "req_commands three_pending 2 = 1"
    by (simp_all add: req_commands_def three_pending_facts req_ping_def req_subscribe_def
        req_get_def)
  have h1: "2 \<le> length (reqs_' three_pending)"
    by (simp add: three_pending_facts)
  have h2: "\<forall>a \<in> set (take 2 (reqs_' three_pending)). req (store_' three_pending a) \<noteq> None"
    by (simp add: three_pending_facts)
  from on_write_removes_response_free_entries [OF h1 h2]
  show ?thesis
    by (auto simp add: three_pending_facts cmds)
qed

text \<open>
  C9. \<open>on_write\<close> returns whenever \<open>end\<close> is a position of the queue and no entry
  before it has a null \<open>req\<close>; and whenever it returns, whatever the queue held,
  \<open>payload_\<close> is empty, so that a following \<open>add_request\<close> on a connection with a
  socket and \<open>cmds_ = 0\<close> cancels the writer's timer again.
\<close>

theorem on_write_clears_payload:
  "(e \<le> length (reqs_' c) \<and> (\<forall>a \<in> set (take e (reqs_' c)). req (store_' c a) \<noteq> None)
      \<longrightarrow> (\<exists>c'. on_write e c = Inr c')) \<and>
   (\<forall>c'. on_write e c = Inr c' \<longrightarrow>
      payload_' c' = [] \<and>
      (\<forall>r. socket_' c' \<noteq> None \<and> cmds_' c' = 0 \<longrightarrow>
         writer_timer_' (add_request r c') = cancel (writer_timer_' c')))"
proof -
  have "payload_' c' = [] \<and>
      (\<forall>r. socket_' c' \<noteq> None \<and> cmds_' c' = 0 \<longrightarrow>
         writer_timer_' (add_request r c') = cancel (writer_timer_' c'))"
    if "on_write e c = Inr c'" for c'
    using on_write_fields(1) [OF that] by (simp add: add_request_writer_timer)
  then show ?thesis
    using on_write_Inr [of e c] by blast
qed

theorem on_write_clears_payload_witness:
  "payload_' write_in_flight \<noteq> [] \<and>
   (\<exists>c'. on_write 2 write_in_flight = Inr c' \<and> payload_' c' = [] \<and>
         waiters (writer_timer_' (add_request req_get c')) = 0)"
proof -
  have q: "reqs_' write_in_flight = [0, 1, 2]" "store_' write_in_flight = store_' three_pending"
    "payload_' write_in_flight \<noteq> []" "socket_' write_in_flight \<noteq> None"
    "cmds_' write_in_flight = 0"
    by (simp_all add: write_in_flight_def three_pending_facts)
  have h: "2 \<le> length (reqs_' write_in_flight) \<and>
      (\<forall>a \<in> set (take 2 (reqs_' write_in_flight)). req (store_' write_in_flight a) \<noteq> None)"
    by (simp add: q three_pending_facts)
  from on_write_clears_payload [of 2 write_in_flight] h
  obtain c' where c': "on_write 2 write_in_flight = Inr c'" "payload_' c' = []"
    "\<forall>r. socket_' c' \<noteq> None \<and> cmds_' c' = 0 \<longrightarrow>
         writer_timer_' (add_request r c') = cancel (writer_timer_' c')"
    by blast
  have "socket_' c' \<noteq> None" "cmds_' c' = 0"
    using on_write_fields [OF c'(1)] q by simp_all
  with c'(3) have "waiters (writer_timer_' (add_request req_get c')) = 0"
    by (simp add: cancel_def)
  with c' q(3) show ?thesis
    by blast
qed

subsection \<open>\<open>add_request\<close>\<close>

text \<open>
  C4, as amended. \<open>add_request\<close> appends the entry and cancels the writer's timer
  exactly if a socket exists, \<open>cmds_\<close> is zero and \<open>payload_\<close> is empty; otherwise
  it leaves the timer alone. Whether the queue was empty plays no part. So a writer
  suspended on its timer is woken by an enqueue if and only if these three conditions
  hold.
\<close>

theorem add_request_wakes_writer:
  "reqs_' (add_request r c) = reqs_' c @ [fst (make_req_info c)] \<and>
   writer_timer_' (add_request r c) =
     (if socket_' c \<noteq> None \<and> cmds_' c = 0 \<and> payload_' c = []
      then cancel (writer_timer_' c) else writer_timer_' c) \<and>
   (0 < waiters (writer_timer_' c) \<longrightarrow>
      (waiters (writer_timer_' (add_request r c)) = 0 \<longleftrightarrow>
       socket_' c \<noteq> None \<and> cmds_' c = 0 \<and> payload_' c = []))"
  by (simp add: add_request_reqs add_request_writer_timer cancel_def)

theorem add_request_wakes_writer_witness:
  "0 < waiters (writer_timer_' idle) \<and>
   waiters (writer_timer_' (add_request req_ping idle)) = 0 \<and>
   reqs_' (add_request req_ping idle) = [0] \<and>
   0 < waiters (writer_timer_' (writer_suspended fresh)) \<and>
   waiters (writer_timer_' (add_request req_ping (writer_suspended fresh))) = 1"
proof -
  have ws: "socket_' (writer_suspended fresh) = None"
    "waiters (writer_timer_' (writer_suspended fresh)) = 1"
    by (simp_all add: writer_suspended_def fresh_facts async_wait_def)
  have p: "fst (make_req_info idle) = 0"
    by (simp add: make_req_info_def idle_def writer_suspended_def connected_def fresh_facts)
  show ?thesis
    using add_request_wakes_writer [of req_ping idle]
      add_request_wakes_writer [of req_ping "writer_suspended fresh"]
    by (simp add: idle_facts ws p cancel_def)
qed

text \<open>
  C4 as stated fails: with a request already in the queue (queued before the connection
  came up), no write in progress and the writer suspended, \<open>add_request\<close> wakes
  the writer although the queue was not empty.
\<close>

theorem add_request_wakes_writer_on_nonempty_queue:
  "reqs_' queued_idle \<noteq> [] \<and> payload_' queued_idle = [] \<and>
   waiters (writer_timer_' queued_idle) = 1 \<and>
   waiters (writer_timer_' (add_request req_get queued_idle)) = 0"
  by (simp add: queued_idle_facts add_request_writer_timer cancel_def)

text \<open>
  C6. In every state of the connection, and so in every state without a live socket
  (\<open>socket_\<close> null, or not null and closed, as \<open>close\<close> leaves it),
  \<open>add_request\<close> appends the new entry at the tail of the queue: it points to the
  request, \<open>n_cmds\<close> is the command count of the request, \<open>stop\<close> is false, its
  timer never expires and no wait on it has been completed; the socket, \<open>payload_\<close>
  and \<open>cmds_\<close> are as before, and with a null socket so is the writer's timer. The
  handles being distinct, they stay so, the entries already queued are unchanged, and
  through any further enqueues the entry keeps its place in the queue and its contents.
  Once a socket is installed again, \<open>coalesce_requests\<close> on an empty \<open>payload_\<close>
  returns, and the bytes it assembles are the first \<open>k\<close> of: the payloads queued
  before, the payload of the request, the payloads enqueued after it, where \<open>k\<close> is
  their number if coalescing is configured and \<open>1\<close> otherwise.
\<close>

theorem add_request_without_connection:
  "reqs_' (add_request r c) = reqs_' c @ [reqs_back (add_request r c)] \<and>
   store_' (add_request r c) (reqs_back (add_request r c)) =
     \<lparr>timer = \<lparr>expiry = time_point_max, waiters = 0\<rparr>, req = Some r,
      n_cmds = commands r, stop = False\<rparr> \<and>
   socket_' (add_request r c) = socket_' c \<and>
   payload_' (add_request r c) = payload_' c \<and> cmds_' (add_request r c) = cmds_' c \<and>
   (socket_' c = None \<longrightarrow> writer_timer_' (add_request r c) = writer_timer_' c) \<and>
   (valid_handles c \<longrightarrow>
      valid_handles (add_request r c) \<and>
      (\<forall>a \<in> set (reqs_' c). store_' (add_request r c) a = store_' c a) \<and>
      (\<exists>more.
         reqs_' (enqueue_all rs (add_request r c)) =
           reqs_' c @ reqs_back (add_request r c) # more \<and>
         map (\<lambda>a. req (store_' (enqueue_all rs (add_request r c)) a)) more = map Some rs) \<and>
      store_' (enqueue_all rs (add_request r c)) (reqs_back (add_request r c)) =
        store_' (add_request r c) (reqs_back (add_request r c)) \<and>
      (payload_' c = [] \<and> (\<forall>a \<in> set (reqs_' c). req (store_' c a) \<noteq> None) \<longrightarrow>
         (\<exists>d. coalesce_requests (connected (enqueue_all rs (add_request r c))) = Inr d \<and>
            payload_' d =
              concat (take (if coalesce_requests_flag (cfg_' c)
                            then length (reqs_' c) + 1 + length rs else 1)
                        (map (req_payload c) (reqs_' c) @ payload r # map payload rs)))))"
proof -
  let ?c1 = "add_request r c"
  let ?p = "reqs_back ?c1"
  let ?c2 = "enqueue_all rs ?c1"
  let ?c3 = "connected ?c2"
  have b: "?p = fst (make_req_info c)"
    by (simp add: reqs_back_def add_request_reqs)
  have one: "reqs_' ?c1 = reqs_' c @ [?p] \<and>
      store_' ?c1 ?p = \<lparr>timer = \<lparr>expiry = time_point_max, waiters = 0\<rparr>, req = Some r,
        n_cmds = commands r, stop = False\<rparr> \<and>
      socket_' ?c1 = socket_' c \<and> payload_' ?c1 = payload_' c \<and> cmds_' ?c1 = cmds_' c \<and>
      (socket_' c = None \<longrightarrow> writer_timer_' ?c1 = writer_timer_' c)"
    by (simp add: b add_request_reqs add_request_store add_request_fields
        add_request_writer_timer)
  have later: "valid_handles ?c1 \<and>
      (\<forall>a \<in> set (reqs_' c). store_' ?c1 a = store_' c a) \<and>
      (\<exists>more. reqs_' ?c2 = reqs_' c @ ?p # more \<and>
         map (\<lambda>a. req (store_' ?c2 a)) more = map Some rs) \<and>
      store_' ?c2 ?p = store_' ?c1 ?p \<and>
      (payload_' c = [] \<and> (\<forall>a \<in> set (reqs_' c). req (store_' c a) \<noteq> None) \<longrightarrow>
         (\<exists>d. coalesce_requests ?c3 = Inr d \<and>
            payload_' d =
              concat (take (if coalesce_requests_flag (cfg_' c)
                            then length (reqs_' c) + 1 + length rs else 1)
                        (map (req_payload c) (reqs_' c) @ payload r # map payload rs))))"
    if v: "valid_handles c"
  proof -
    have v1: "valid_handles ?c1"
      by (rule valid_handles_add_request [OF v])
    have old1: "\<forall>a \<in> set (reqs_' c). store_' ?c1 a = store_' c a"
      using add_request_old_entries [OF v] by blast
    from enqueue_all_queue [OF v1, of rs] obtain more where
      q2: "reqs_' ?c2 = reqs_' ?c1 @ more" and
      m: "map (\<lambda>a. req (store_' ?c2 a)) more = map Some rs" and
      old2: "\<forall>a \<in> set (reqs_' ?c1). store_' ?c2 a = store_' ?c1 a"
      by blast
    have q: "reqs_' ?c2 = reqs_' c @ ?p # more"
      using q2 one by simp
    have sp: "store_' ?c2 ?p = store_' ?c1 ?p"
      using old2 one by simp
    have old: "\<forall>a \<in> set (reqs_' c). store_' ?c2 a = store_' c a"
      using old1 old2 one by simp
    have sent: "\<exists>d. coalesce_requests ?c3 = Inr d \<and>
            payload_' d =
              concat (take (if coalesce_requests_flag (cfg_' c)
                            then length (reqs_' c) + 1 + length rs else 1)
                        (map (req_payload c) (reqs_' c) @ payload r # map payload rs))"
      if e: "payload_' c = []" and nn: "\<forall>a \<in> set (reqs_' c). req (store_' c a) \<noteq> None"
    proof -
      have f3: "reqs_' ?c3 = reqs_' c @ ?p # more" "store_' ?c3 = store_' ?c2"
        "payload_' ?c3 = []" "cfg_' ?c3 = cfg_' c"
        using q e by (simp_all add: connected_def enqueue_all_fields add_request_fields)
      have rp: "req_payload ?c3 = req_payload ?c2"
        by (rule req_payload_cong) (simp add: f3)
      have len: "length more = length rs"
        using m by (metis length_map)
      have pm: "map (req_payload ?c2) more = map payload rs"
      proof -
        have "map (req_payload ?c2) more =
            map (\<lambda>x. case x of None \<Rightarrow> [] | Some r \<Rightarrow> payload r)
              (map (\<lambda>a. req (store_' ?c2 a)) more)"
          by (simp add: req_payload_def)
        also have "\<dots> = map payload rs"
          by (simp only: m) simp
        finally show ?thesis .
      qed
      have po: "map (req_payload ?c2) (reqs_' c) = map (req_payload c) (reqs_' c)"
        using old by (simp add: req_payload_def)
      have pp: "req_payload ?c2 ?p = payload r"
        using sp one by (simp add: req_payload_def)
      have pl: "map (req_payload ?c3) (reqs_' ?c3) =
          map (req_payload c) (reqs_' c) @ payload r # map payload rs"
        by (simp add: rp f3 po pp pm)
      have ne: "reqs_' ?c3 \<noteq> []"
        by (simp add: f3)
      have all: "\<forall>a \<in> set (reqs_' ?c3). req (store_' ?c3 a) \<noteq> None"
      proof
        fix a
        assume "a \<in> set (reqs_' ?c3)"
        then consider "a \<in> set (reqs_' c)" | "a = ?p" | "a \<in> set more"
          by (auto simp: f3)
        then show "req (store_' ?c3 a) \<noteq> None"
        proof cases
          case 1
          then show ?thesis
            using old nn by (simp add: f3)
        next
          case 2
          then show ?thesis
            using sp one by (simp add: f3)
        next
          case 3
          then have "req (store_' ?c2 a) \<in> set (map (\<lambda>a. req (store_' ?c2 a)) more)"
            by simp
          then have "req (store_' ?c2 a) \<in> Some ` set rs"
            by (simp only: m set_map)
          then show ?thesis
            by (auto simp: f3)
        qed
      qed
      let ?k = "if coalesce_requests_flag (cfg_' ?c3) then length (reqs_' ?c3) else 1"
      have nn3: "\<forall>a \<in> set (take ?k (reqs_' ?c3)). req (store_' ?c3 a) \<noteq> None"
        using all by (meson in_set_takeD)
      have k: "?k = (if coalesce_requests_flag (cfg_' c)
                            then length (reqs_' c) + 1 + length rs else 1)"
        by (simp add: f3 len)
      have "payload_' (c0\<lparr>payload_' := concat (map (req_payload ?c3) (take ?k (reqs_' ?c3))),
            cmds_' := x\<rparr>) =
          concat (take ?k (map (req_payload ?c3) (reqs_' ?c3)))" for c0 :: connection and x
        by (simp add: take_map)
      then show ?thesis
        unfolding coalesce_requests_Inr [OF ne f3(3) nn3]
        by (simp only: pl k) blast
    qed
    from v1 old1 q m sp sent show ?thesis
      by blast
  qed
  from one later show ?thesis
    by blast
qed

theorem add_request_without_connection_witness:
  "socket_' (exec_wait req_ping fresh) = None \<and>
   reqs_' (add_request req_get (exec_wait req_ping fresh)) = [0, 1] \<and>
   (\<exists>d. coalesce_requests
          (connected (enqueue_all [req_subscribe]
             (add_request req_get (exec_wait req_ping fresh)))) = Inr d \<and>
        payload_' d = ''PING;GET a;SUBSCRIBE ch;'') \<and>
   socket_' disconnected = Some \<lparr>is_open = False\<rparr> \<and>
   reqs_' (add_request req_get disconnected) = [1] \<and>
   stop (store_' (add_request req_get disconnected) 1) = False \<and>
   (\<exists>d. coalesce_requests (connected (enqueue_all [] (add_request req_get disconnected)))
          = Inr d \<and> payload_' d = ''GET a;'')"
proof -
  let ?a = "exec_wait req_ping fresh"
  have va: "valid_handles ?a"
    by (simp add: valid_handles_def queued_offline_facts)
  have ba: "reqs_back (add_request req_get ?a) = 1"
    by (simp add: reqs_back_def add_request_reqs make_req_info_pool queued_offline_facts)
  have pay: "payload req_get = ''GET a;''" "payload req_subscribe = ''SUBSCRIBE ch;''"
    "payload req_ping = ''PING;''"
    by (simp_all add: req_get_def req_subscribe_def req_ping_def)
  have pa: "req_payload ?a 0 = ''PING;''"
    by (simp add: req_payload_def queued_offline_facts pay)
  have a: "reqs_' (add_request req_get ?a) = [0, 1] \<and>
      (\<exists>d. coalesce_requests
          (connected (enqueue_all [req_subscribe] (add_request req_get ?a))) = Inr d \<and>
        payload_' d = ''PING;GET a;SUBSCRIBE ch;'')"
    using add_request_without_connection [of req_get ?a "[req_subscribe]"] va
    by (simp add: ba pa pay queued_offline_facts)
  have vb: "valid_handles disconnected"
    by (simp add: valid_handles_def disconnected_facts)
  have bb: "reqs_back (add_request req_get disconnected) = 1"
    by (simp add: reqs_back_def add_request_reqs make_req_info_pool disconnected_facts)
  have b: "reqs_' (add_request req_get disconnected) = [1] \<and>
      stop (store_' (add_request req_get disconnected) 1) = False \<and>
      (\<exists>d. coalesce_requests (connected (enqueue_all [] (add_request req_get disconnected)))
          = Inr d \<and> payload_' d = ''GET a;'')"
    using add_request_without_connection [of req_get disconnected "[]"] vb
    by (simp add: bb pay disconnected_facts)
  from a b show ?thesis
    by (simp add: queued_offline_facts disconnected_facts)
qed

text \<open>
  C10. Whatever state the entry returned by \<open>make_req_info\<close> was in, after
  \<open>add_request\<close> it is the last of the queue, its pointer is to the request, its
  \<open>n_cmds\<close> is the command count of the request, its \<open>stop\<close> is false, and its
  timer expires at the maximal time point with no wait outstanding; this is also the
  entry that \<open>add_request\<close> makes with an empty pool, that is of a new object.
\<close>

theorem add_request_reinitialises_entry:
  "reqs_' (add_request r c) \<noteq> [] \<and>
   reqs_back (add_request r c) = fst (make_req_info c) \<and>
   store_' (add_request r c) (reqs_back (add_request r c)) =
     \<lparr>timer = \<lparr>expiry = time_point_max, waiters = 0\<rparr>, req = Some r,
      n_cmds = commands r, stop = False\<rparr> \<and>
   store_' (add_request r c) (reqs_back (add_request r c)) =
     store_' (add_request r (c\<lparr>pool_' := []\<rparr>))
       (reqs_back (add_request r (c\<lparr>pool_' := []\<rparr>)))"
  by (simp add: reqs_back_def add_request_reqs add_request_store)

theorem add_request_reinitialises_entry_witness:
  "fst (make_req_info stale_pool) = 0 \<and>
   stop (store_' stale_pool 0) \<and> req (store_' stale_pool 0) = Some req_ping \<and>
   reqs_' (add_request req_subscribe stale_pool) = [0] \<and>
   store_' (add_request req_subscribe stale_pool) 0 =
     \<lparr>timer = \<lparr>expiry = time_point_max, waiters = 0\<rparr>, req = Some req_subscribe,
      n_cmds = 0, stop = False\<rparr>"
proof -
  have p: "fst (make_req_info stale_pool) = 0"
    by (simp add: make_req_info_pool stale_pool_facts)
  have q: "reqs_' (add_request req_subscribe stale_pool) = [0]"
    by (simp add: add_request_reqs p stale_pool_facts)
  have b: "reqs_back (add_request req_subscribe stale_pool) = 0"
    by (simp add: reqs_back_def q)
  have n: "commands req_subscribe = 0"
    by (simp add: req_subscribe_def)
  show ?thesis
    using add_request_reinitialises_entry [of req_subscribe stale_pool]
    by (simp add: p q b n stale_pool_facts)
qed

subsection \<open>\<open>coalesce_requests\<close>\<close>

text \<open>
  C1, as amended. On a queue with at least one entry and an empty \<open>payload_\<close>, let
  \<open>k\<close> be the length of the queue if \<open>coalesce_requests\<close> is configured and \<open>1\<close>
  otherwise (there is no limit and no test that the bytes fit), and let none of the first
  \<open>k\<close> entries point to a null request. Then \<open>coalesce_requests\<close> returns, \<open>payload_\<close>
  is the concatenation, in queue order, of the payloads of the first \<open>k\<close> entries, and
  \<open>cmds_\<close> has grown by the sum (in \<open>std::size_t\<close>) of their command counts; the
  queue and its entries are as before.
\<close>

theorem coalesce_requests_concatenates:
  assumes "reqs_' c \<noteq> []" and "payload_' c = []"
    and "k = (if coalesce_requests_flag (cfg_' c) then length (reqs_' c) else 1)"
    and "\<forall>a \<in> set (take k (reqs_' c)). req (store_' c a) \<noteq> None"
  shows "\<exists>c'. coalesce_requests c = Inr c' \<and>
     payload_' c' = concat (map (req_payload c) (take k (reqs_' c))) \<and>
     cmds_' c' = cmds_' c + sum_list (map (req_commands c) (take k (reqs_' c))) \<and>
     reqs_' c' = reqs_' c \<and> store_' c' = store_' c"
proof -
  have nn: "\<forall>a \<in> set (take (if coalesce_requests_flag (cfg_' c) then length (reqs_' c) else 1)
            (reqs_' c)). req (store_' c a) \<noteq> None"
    using assms(3,4) by simp
  show ?thesis
    unfolding coalesce_requests_Inr [OF assms(1,2) nn] assms(3)
    by simp
qed

theorem coalesce_requests_concatenates_witness:
  "(\<exists>c'. coalesce_requests three_pending = Inr c' \<and>
         payload_' c' = ''PING;SUBSCRIBE ch;GET a;'' \<and> cmds_' c' = 2) \<and>
   (\<exists>c'. coalesce_requests one_per_write = Inr c' \<and>
         payload_' c' = ''PING;'' \<and> cmds_' c' = 1)"
proof -
  have a: "\<exists>c'. coalesce_requests three_pending = Inr c' \<and>
         payload_' c' = ''PING;SUBSCRIBE ch;GET a;'' \<and> cmds_' c' = 2"
    using coalesce_requests_concatenates [of three_pending 3]
    by (auto simp add: three_pending_facts three_pending_payloads)
  have b: "\<exists>c'. coalesce_requests one_per_write = Inr c' \<and>
         payload_' c' = ''PING;'' \<and> cmds_' c' = 1"
    using coalesce_requests_concatenates [of one_per_write 1]
    by (auto simp add: one_per_write_facts three_pending_facts three_pending_payloads)
  from a b show ?thesis ..
qed

text \<open>
  C1 as stated fails: with three entries queued and coalescing configured, the buffer
  holds all three payloads, which is not the concatenation of the first \<open>k\<close> payloads
  for any \<open>k\<close> up to a limit of two.
\<close>

theorem coalesce_requests_knows_no_limit:
  "(case coalesce_requests three_pending of
      Inl e \<Rightarrow> False
    | Inr c' \<Rightarrow>
        payload_' c' = ''PING;SUBSCRIBE ch;GET a;'' \<and>
        payload_' c' \<noteq> concat (map (req_payload three_pending) (take 2 (reqs_' three_pending))) \<and>
        payload_' c' \<noteq> concat (map (req_payload three_pending) (take 1 (reqs_' three_pending))) \<and>
        payload_' c' \<noteq> concat (map (req_payload three_pending) (take 0 (reqs_' three_pending))))"
proof -
  have nn: "\<forall>a \<in> set (take (if coalesce_requests_flag (cfg_' three_pending)
        then length (reqs_' three_pending) else 1) (reqs_' three_pending)).
      req (store_' three_pending a) \<noteq> None"
    by (simp add: three_pending_facts)
  show ?thesis
    unfolding coalesce_requests_Inr [OF _ _ nn, simplified three_pending_facts, simplified]
    by (simp add: three_pending_facts three_pending_payloads)
qed

subsection \<open>The order of the queue\<close>

text \<open>
  C2. After any sequence of enqueues, completed writes and reader decrements that runs
  without error, the queue is a subsequence of what it was followed by the enqueued
  entries in the order of the calls. Step by step: \<open>add_request\<close> appends at the
  tail; \<open>decrement_head\<close> leaves the queue as it is or removes its head;
  \<open>on_write\<close> removes entries only before the position \<open>end\<close>, that is from the
  range that starts at the front, and keeps the others in their order.
\<close>

theorem queue_order_is_enqueue_order:
  "(\<forall>c'. run ops c = Inr c' \<longrightarrow> subseq (reqs_' c') (reqs_' c @ enqueued ops c)) \<and>
   reqs_' (add_request r c) = reqs_' c @ [reqs_back (add_request r c)] \<and>
   (\<forall>c'. decrement_head c = Inr c' \<longrightarrow> reqs_' c' = reqs_' c \<or> reqs_' c' = tl (reqs_' c)) \<and>
   (\<forall>c'. on_write e c = Inr c' \<longrightarrow>
      reqs_' c' = filter (has_commands c) (take e (reqs_' c)) @ drop e (reqs_' c))"
  using run_subseq decrement_head_reqs on_write_reqs
  by (simp add: reqs_back_def add_request_reqs)

theorem queue_order_is_enqueue_order_witness:
  "(\<exists>c'. run queue_ops (connected fresh) = Inr c' \<and> reqs_' c' = [2]) \<and>
   enqueued queue_ops (connected fresh) = [0, 1, 2] \<and>
   subseq [2 :: nat] [0, 1, 2] \<and>
   (\<exists>c'. on_write 2 three_pending = Inr c' \<and> reqs_' c' = [0, 2]) \<and>
   (\<exists>c'. decrement_head one_pending = Inr c' \<and> (reqs_' c' = [0] \<or> reqs_' c' = []))"
proof -
  let ?c0 = "connected fresh"
  let ?s1 = "add_request req_ping ?c0"
  let ?s2 = "add_request req_subscribe ?s1"
  let ?s3 = "add_request req_get ?s2"
  have q: "reqs_' ?s1 = [0]" "reqs_' ?s2 = [0, 1]" "reqs_' ?s3 = [0, 1, 2]"
    by (simp_all add: add_request_reqs add_request_pool make_req_info_pool
        connected_fresh_facts)
  have st: "req (store_' ?s3 0) = Some req_ping" "req (store_' ?s3 (Suc 0)) = Some req_subscribe"
    "n_cmds (store_' ?s3 0) = 1"
    by (simp_all add: add_request_store add_request_pool make_req_info_pool
        connected_fresh_facts req_ping_def)
  have cm: "commands req_ping \<noteq> 0" "commands req_subscribe = 0"
    by (simp_all add: req_ping_def req_subscribe_def)
  have hc: "has_commands ?s3 0" "\<not> has_commands ?s3 (Suc 0)"
    using has_commands_iff [OF st(1)] has_commands_iff [OF st(2)] cm by simp_all
  have h1: "2 \<le> length (reqs_' ?s3)"
    by (simp add: q)
  have h2: "\<forall>a \<in> set (take 2 (reqs_' ?s3)). req (store_' ?s3 a) \<noteq> None"
    by (simp add: q st)
  from on_write_Inr [OF h1 h2] obtain s4 where s4: "on_write 2 ?s3 = Inr s4"
    by blast
  have q4: "reqs_' s4 = [0, 2]"
    by (simp add: on_write_reqs [OF s4] q hc)
  have n4: "n_cmds (store_' s4 0) = 1"
    by (simp add: on_write_store [OF s4] hc st)
  from decrement_head_last_response [OF q4 n4]
  obtain s5 where s5: "decrement_head s4 = Inr s5" "reqs_' s5 = [2]"
    by blast
  have run: "run queue_ops ?c0 = Inr s5"
    by (simp add: queue_ops_def s4 s5)
  have enq: "enqueued queue_ops ?c0 = [0, 1, 2]"
    by (simp add: queue_ops_def s4 s5 reqs_back_def q)
  have w: "\<exists>c'. on_write 2 three_pending = Inr c'"
    using on_write_Inr [of 2 three_pending] by (simp add: three_pending_facts)
  have hc3: "has_commands three_pending 0" "\<not> has_commands three_pending (Suc 0)"
    by (simp_all add: has_commands_def three_pending_facts req_ping_def req_subscribe_def)
  have d: "\<exists>c'. decrement_head one_pending = Inr c'"
    using decrement_head_last_response [of one_pending 0 "[]"]
    by (auto simp add: one_pending_facts one_pending_entry)
  note main = queue_order_is_enqueue_order
  from main [of queue_ops ?c0] run have "subseq (reqs_' s5) (reqs_' ?c0 @ enqueued queue_ops ?c0)"
    by blast
  then have a: "subseq [2 :: nat] [0, 1, 2]"
    by (simp add: s5 enq connected_fresh_facts)
  from w main [of _ three_pending _ 2]
  have b: "\<exists>c'. on_write 2 three_pending = Inr c' \<and> reqs_' c' = [0, 2]"
    by (auto simp add: three_pending_facts hc3)
  from d main [of _ one_pending]
  have c: "\<exists>c'. decrement_head one_pending = Inr c' \<and> (reqs_' c' = [0] \<or> reqs_' c' = [])"
    by (auto simp add: one_pending_facts)
  from run s5(2) enq a b c show ?thesis
    by blast
qed

end
